theory Spec2Isabelle
  imports Main "HOL-Library.Char_ord" "HOL-Library.List_Lexorder"
    "HOL-Library.Product_Lexorder" "HOL-Library.Multiset"
begin

section \<open>Text and character classes\<close>

text \<open>
  The analyzer of \<^verbatim>\<open>scripts/clj-declare-analy.py\<close> works on Python strings. A source
  text is modelled as a \<^typ>\<open>string\<close> whose characters are the code points below 256;
  the character classes below are the ones Python uses on that range. Messages that the
  analyzer prints contain code points beyond 255 and are modelled as lists of code points.
\<close>

type_synonym ustring = "int list"

definition utext :: "string \<Rightarrow> ustring" where
  "utext s = map of_char s"

text \<open>\<^verbatim>\<open>str.isspace\<close> and the class \<^verbatim>\<open>\s\<close> of \<^verbatim>\<open>re\<close>.\<close>

definition is_space :: "char \<Rightarrow> bool" where
  "is_space c = (c \<in> {CHR 0x09, CHR 0x0A, CHR 0x0B, CHR 0x0C, CHR 0x0D, CHR 0x1C, CHR 0x1D,
     CHR 0x1E, CHR 0x1F, CHR 0x20, CHR 0x85, CHR 0xA0})"

definition in_range :: "nat \<Rightarrow> nat \<Rightarrow> char \<Rightarrow> bool" where
  "in_range lo hi c = (lo \<le> of_char c \<and> (of_char c :: nat) \<le> hi)"

definition is_digit :: "char \<Rightarrow> bool" where
  "is_digit c = in_range 48 57 c"

definition is_ascii_letter :: "char \<Rightarrow> bool" where
  "is_ascii_letter c = (in_range 65 90 c \<or> in_range 97 122 c)"

text \<open>The class \<^verbatim>\<open>\w\<close> of \<^verbatim>\<open>re\<close> for a \<^verbatim>\<open>str\<close> pattern.\<close>

definition is_word :: "char \<Rightarrow> bool" where
  "is_word c = (is_digit c \<or> is_ascii_letter c \<or> c = CHR ''_''
     \<or> c \<in> {CHR 0xAA, CHR 0xB2, CHR 0xB3, CHR 0xB5, CHR 0xB9, CHR 0xBA, CHR 0xBC, CHR 0xBD, CHR 0xBE}
     \<or> in_range 192 214 c \<or> in_range 216 246 c \<or> in_range 248 255 c)"

text \<open>\<^verbatim>\<open>str.isupper\<close> on a single character.\<close>

definition is_upper :: "char \<Rightarrow> bool" where
  "is_upper c = (in_range 65 90 c \<or> in_range 192 214 c \<or> in_range 216 222 c)"

text \<open>\<^verbatim>\<open>str.strip()\<close>\<close>

definition strip :: "string \<Rightarrow> string" where
  "strip s = rev (dropWhile is_space (rev (dropWhile is_space s)))"

text \<open>\<^verbatim>\<open>content.split('\n')\<close>: the result is never empty.\<close>

fun split_nl :: "string \<Rightarrow> string list" where
  "split_nl [] = [[]]"
| "split_nl (c # cs) =
     (if c = CHR 0x0A then [] # split_nl cs
      else (case split_nl cs of [] \<Rightarrow> [[c]] | l # ls \<Rightarrow> (c # l) # ls))"

text \<open>
  The rest of a string behind a prefix, if it has the prefix; \<^verbatim>\<open>s.startswith(p)\<close>;
  and \<^verbatim>\<open>sub in s\<close> on strings.
\<close>

fun after_prefix :: "string \<Rightarrow> string \<Rightarrow> string option" where
  "after_prefix [] s = Some s"
| "after_prefix (p # ps) [] = None"
| "after_prefix (p # ps) (c # cs) = (if p = c then after_prefix ps cs else None)"

definition starts_with :: "string \<Rightarrow> string \<Rightarrow> bool" where
  "starts_with s p = (after_prefix p s \<noteq> None)"

fun contains :: "string \<Rightarrow> string \<Rightarrow> bool" where
  "contains sub [] = (sub = [])"
| "contains sub (c # cs) = (starts_with (c # cs) sub \<or> contains sub cs)"

section \<open>Regular expressions of the scanner\<close>

text \<open>
  Each pattern of the source is modelled by a function that tries the pattern at the
  start of a string, as the backtracking matcher of \<^verbatim>\<open>re\<close> does. In all of them a
  greedy repetition is followed by a character its class excludes, so giving characters
  back never helps, except in the declare pattern where it is written out.
  \<^verbatim>\<open>re.search\<close> tries the start positions from left to right.
\<close>

fun re_search :: "(string \<Rightarrow> 'a option) \<Rightarrow> string \<Rightarrow> 'a option" where
  "re_search m [] = m []"
| "re_search m (c # cs) = (case m (c # cs) of Some g \<Rightarrow> Some g | None \<Rightarrow> re_search m cs)"

text \<open>
  \<^verbatim>\<open>re.finditer\<close> and \<^verbatim>\<open>re.findall\<close>: the matcher gives group 1 and the length
  of the match, and the scan goes on behind the match. No pattern of the source matches
  the empty string.
\<close>

fun find_all :: "(string \<Rightarrow> (string \<times> nat) option) \<Rightarrow> string \<Rightarrow> string list" where
  "find_all m [] = []"
| "find_all m (c # cs) =
     (case m (c # cs) of
        None \<Rightarrow> find_all m cs
      | Some (g, n) \<Rightarrow> g # find_all m (drop (n - 1) cs))"

text \<open>The class \<^verbatim>\<open>[^\s\)]\<close>.\<close>

definition tok_char :: "char \<Rightarrow> bool" where
  "tok_char c = (\<not> is_space c \<and> c \<noteq> CHR 0x29)"

text \<open>\<^verbatim>\<open>\(ns\s+([^\s\)]+)\<close>\<close>

definition ns_at :: "string \<Rightarrow> string option" where
  "ns_at s =
     (case after_prefix ''(ns'' s of
        None \<Rightarrow> None
      | Some r \<Rightarrow>
          let tok = takeWhile tok_char (dropWhile is_space r)
          in if takeWhile is_space r = [] \<or> tok = [] then None else Some tok)"

text \<open>\<^verbatim>\<open>:require\s+\[([^\]]+)\]\<close>\<close>

definition require_at :: "string \<Rightarrow> (string \<times> nat) option" where
  "require_at s =
     (case after_prefix '':require'' s of
        None \<Rightarrow> None
      | Some r \<Rightarrow>
          let ws = takeWhile is_space r in
          (case dropWhile is_space r of
             [] \<Rightarrow> None
           | b # r2 \<Rightarrow>
               let body = takeWhile (\<lambda>c. c \<noteq> CHR 0x5D) r2
               in if ws = [] \<or> b \<noteq> CHR 0x5B \<or> body = [] \<or> dropWhile (\<lambda>c. c \<noteq> CHR 0x5D) r2 = []
                  then None
                  else Some (body, 8 + length ws + 1 + length body + 1)))"

text \<open>\<^verbatim>\<open>:as\s+(\S+)\<close>\<close>

definition as_at :: "string \<Rightarrow> (string \<times> nat) option" where
  "as_at s =
     (case after_prefix '':as'' s of
        None \<Rightarrow> None
      | Some r \<Rightarrow>
          let ws = takeWhile is_space r;
              alias = takeWhile (\<lambda>c. \<not> is_space c) (dropWhile is_space r)
          in if ws = [] \<or> alias = [] then None
             else Some (alias, 3 + length ws + length alias))"

text \<open>\<^verbatim>\<open>\(def(?:n)?\s+([^\s\)]+)\<close>\<close>

definition def_at :: "string \<Rightarrow> string option" where
  "def_at s =
     (case after_prefix ''(def'' s of
        None \<Rightarrow> None
      | Some r \<Rightarrow>
          let r' = (case r of [] \<Rightarrow> r | c # t \<Rightarrow> if c = CHR ''n'' then t else r);
              tok = takeWhile tok_char (dropWhile is_space r')
          in if takeWhile is_space r' = [] \<or> tok = [] then None else Some tok)"

text \<open>
  \<^verbatim>\<open>re.sub(r'^\^?[:\w]+\s+', '', symbol)\<close>: the pattern is anchored at the
  start of the string, so at most one match is removed.
\<close>

definition meta_char :: "char \<Rightarrow> bool" where
  "meta_char c = (c = CHR '':'' \<or> is_word c)"

definition sub_meta :: "string \<Rightarrow> string" where
  "sub_meta s =
     (let r = (case s of [] \<Rightarrow> s | c # t \<Rightarrow> if c = CHR 0x5E then t else s);
          r2 = dropWhile meta_char r
      in if takeWhile meta_char r = [] \<or> takeWhile is_space r2 = [] then s
         else dropWhile is_space r2)"

text \<open>
  \<^verbatim>\<open>\(declare\s+([^\)]+)\)\<close>. When the white space is followed at once by the
  closing parenthesis, the matcher gives the last white-space character back to the group,
  which needs two of them.
\<close>

definition declare_at :: "string \<Rightarrow> string option" where
  "declare_at s =
     (case after_prefix ''(declare'' s of
        None \<Rightarrow> None
      | Some r \<Rightarrow>
          let ws = takeWhile is_space r;
              r2 = dropWhile is_space r;
              body = takeWhile (\<lambda>c. c \<noteq> CHR 0x29) r2
          in if ws = [] \<or> dropWhile (\<lambda>c. c \<noteq> CHR 0x29) r2 = [] then None
             else if body \<noteq> [] then Some body
             else if 2 \<le> length ws then Some [last ws]
             else None)"

text \<open>\<^verbatim>\<open>([^\s\)]+)\<close>\<close>

definition token_at :: "string \<Rightarrow> (string \<times> nat) option" where
  "token_at s =
     (let tok = takeWhile tok_char s
      in if tok = [] then None else Some (tok, length tok))"

text \<open>
  \<^verbatim>\<open>\(([a-zA-Z_\-\.\?\!]+[a-zA-Z0-9_\-\.\?\!]*)\s+\<close>
\<close>

definition head_char :: "char \<Rightarrow> bool" where
  "head_char c = (is_ascii_letter c \<or> c \<in> {CHR ''_'', CHR ''-'', CHR ''.'', CHR ''?'', CHR ''!''})"

definition sym_char :: "char \<Rightarrow> bool" where
  "sym_char c = (head_char c \<or> is_digit c)"

definition call_at :: "string \<Rightarrow> (string \<times> nat) option" where
  "call_at s =
     (case s of
        [] \<Rightarrow> None
      | p # r \<Rightarrow>
          let symbol = takeWhile head_char r @ takeWhile sym_char (dropWhile head_char r);
              ws = takeWhile is_space (dropWhile sym_char (dropWhile head_char r))
          in if p \<noteq> CHR 0x28 \<or> takeWhile head_char r = [] \<or> ws = [] then None
             else Some (symbol, 1 + length symbol + length ws))"

section \<open>The classifier\<close>

definition allowlist :: "string list" where
  "allowlist =
    [''if'', ''when'', ''let'', ''fn'', ''def'', ''defn'',
     ''ns'', ''require'', ''import'', ''set!'', ''do'', ''cond'',
     ''case'', ''try'', ''catch'', ''finally'', ''throw'', ''->'',
     ''->>'', ''doto'', ''and'', ''or'', ''not'', ''nil?'',
     ''some?'', ''if-let'', ''when-let'', ''when-not'', ''if-not'', ''cond->'',
     ''cond->>'', ''some->'', ''some->>'', ''as->'', ''loop'', ''recur'',
     ''reify'', ''proxy'', ''extend'', ''extend-type'', ''extend-protocol'', ''deftype'',
     ''defrecord'', ''defprotocol'', ''definterface'', ''gen-class'', ''gen-interface'', ''declare'',
     ''quote'', ''var'', ''deref'', ''ref'', ''atom'', ''agent'',
     ''future'', ''delay'', ''promise'', ''locking'', ''monitor-enter'', ''monitor-exit'',
     ''time'', ''with-local-vars'', ''binding'', ''with-bindings'', ''with-redefs'', ''with-redefs-fn'',
     ''alter-var-root'', ''swap!'', ''reset!'', ''compare-and-set!'', ''commute'', ''ensure'',
     ''dosync'', ''io!'', ''sync'', ''ref-set'', ''alter'', ''commute'',
     ''ref-history-count'', ''ref-max-history'', ''ref-min-history'', ''ref-snapshots'', ''ref-ensure'', ''partial'',
     ''comp'', ''juxt'', ''complement'', ''constantly'', ''identity'', ''constantly'',
     ''fnil'', ''every-pred'', ''some-fn'', ''apply'', ''map'', ''mapv'',
     ''mapcat'', ''filter'', ''filterv'', ''remove'', ''keep'', ''keep-indexed'',
     ''distinct'', ''distinct?'', ''concat'', ''cons'', ''conj'', ''into'',
     ''reduce'', ''reductions'', ''take'', ''drop'', ''take-while'', ''drop-while'',
     ''split-at'', ''split-with'', ''partition'', ''partition-all'', ''partition-by'', ''interleave'',
     ''interpose'', ''cycle'', ''repeat'', ''repeatedly'', ''iterate'', ''range'',
     ''rest'', ''next'', ''fnext'', ''nnext'', ''ffirst'', ''nfirst'',
     ''first'', ''last'', ''butlast'', ''drop-last'', ''take-last'', ''take-nth'',
     ''nth'', ''nthnext'', ''nthrest'', ''frequencies'', ''group-by'', ''vals'',
     ''keys'', ''key'', ''val'', ''seq'', ''vector'', ''list'',
     ''hash-map'', ''array-map'', ''sorted-map'', ''sorted-map-by'', ''sorted-set'', ''sorted-set-by'',
     ''hash-set'', ''set'', ''contains?'', ''get'', ''get-in'', ''assoc'',
     ''assoc-in'', ''dissoc'', ''dissoc-in'', ''update'', ''update-in'', ''merge'',
     ''merge-with'', ''select-keys'', ''zipmap'', ''into-array'', ''to-array'', ''into-array'',
     ''alength'', ''aget'', ''aset'', ''make-array'', ''vector-of'', ''boolean-array'',
     ''byte-array'', ''char-array'', ''short-array'', ''int-array'', ''long-array'', ''float-array'',
     ''double-array'', ''object-array'', ''str'', ''string?'', ''keyword'', ''keyword?'',
     ''symbol'', ''symbol?'', ''name'', ''namespace'', ''ident?'', ''simple-ident?'',
     ''qualified-ident?'', ''qualified-keyword?'', ''qualified-symbol?'', ''simple-keyword?'', ''simple-symbol?'', ''gensym'',
     ''gensym'', ''format'', ''printf'', ''print'', ''println'', ''pr'',
     ''prn'', ''pr-str'', ''prn-str'', ''print-str'', ''println-str'', ''with-out-str'',
     ''with-in-str'', ''read'', ''read-string'', ''read-line'', ''line-seq'', ''slurp'',
     ''spit'', ''reader'', ''writer'', ''input-stream'', ''output-stream'', ''file-seq'',
     ''sh'', ''shutdown-agents'', ''halt-when'', ''halt-when!'', ''error-handler'', ''error-mode'',
     ''send'', ''send-off'', ''send-via'', ''restart-agent'', ''await'', ''await-for'',
     ''await1'', ''await-for1'', ''agent-error'', ''agent-errors'', ''set-error-handler!'', ''set-error-mode!'',
     ''error-handler'', ''error-mode'', ''add-watch'', ''remove-watch'', ''notify-watches'', ''add-watcher'',
     ''remove-watcher'', ''notify-watchers'', ''realized?'', ''deref'', ''deref'', ''deref'',
     ''deref'', ''realized?'', ''realized?'', ''realized?'', ''realized?'']"

text \<open>
  The three \<^verbatim>\<open>continue\<close> tests on a matched symbol, in the order of the source. The
  symbol is never empty, since the call pattern matches at least one character;
  \<^verbatim>\<open>symbol[0]\<close> of the empty string would raise.
\<close>

definition excluded :: "string set \<Rightarrow> string \<Rightarrow> bool" where
  "excluded nss symbol =
     (symbol \<in> set allowlist
      \<or> (CHR ''.'' \<in> set symbol \<and> \<not> (\<exists>ns \<in> nss. starts_with symbol (ns @ ''.'')))
      \<or> ((case symbol of [] \<Rightarrow> False | c # _ \<Rightarrow> is_upper c) \<or> CHR ''$'' \<in> set symbol))"

section \<open>The file scanner\<close>

record extraction =
  definitions :: "string \<rightharpoonup> nat"
  declares :: "string set"
  calls :: "(nat \<times> string) list"
  namespaces :: "string set"

text \<open>\<^verbatim>\<open>ns_name.split('.')[-1]\<close>\<close>

definition last_segment :: "string \<Rightarrow> string" where
  "last_segment s = rev (takeWhile (\<lambda>c. c \<noteq> CHR ''.'') (rev s))"

definition file_namespaces :: "string \<Rightarrow> string set" where
  "file_namespaces content =
     (case re_search ns_at content of
        None \<Rightarrow> {}
      | Some ns_name \<Rightarrow> {ns_name, last_segment ns_name})
     \<union> set (concat (map (find_all as_at) (find_all require_at content)))"

text \<open>The symbol that a line defines, if any: the first block of the loop body.\<close>

definition line_definition :: "string \<Rightarrow> string option" where
  "line_definition stripped =
     (case re_search def_at stripped of
        None \<Rightarrow> None
      | Some g \<Rightarrow>
          let symbol = strip (sub_meta g)
          in if symbol \<noteq> [] \<and> \<not> starts_with symbol ''('' then Some symbol else None)"

text \<open>The symbols that a line declares: the second block of the loop body.\<close>

definition line_declares :: "string \<Rightarrow> string list" where
  "line_declares stripped =
     (case re_search declare_at stripped of
        None \<Rightarrow> []
      | Some symbols_str \<Rightarrow> find_all token_at symbols_str)"

text \<open>The calls that a line records: the third block of the loop body.\<close>

definition line_calls :: "string set \<Rightarrow> string \<Rightarrow> string list" where
  "line_calls nss stripped = filter (\<lambda>symbol. \<not> excluded nss symbol) (find_all call_at stripped)"

definition skipped :: "string \<Rightarrow> bool" where
  "skipped stripped = (stripped = [] \<or> starts_with stripped '';'')"

definition scan_line :: "nat \<times> string \<Rightarrow> extraction \<Rightarrow> extraction" where
  "scan_line = (\<lambda>(line_num, line) result.
     let stripped = strip line in
     if skipped stripped then result
     else
       let r1 = (case line_definition stripped of
                   None \<Rightarrow> result
                 | Some symbol \<Rightarrow> result\<lparr>definitions := (definitions result)(symbol \<mapsto> line_num)\<rparr>);
           r2 = r1\<lparr>declares := declares r1 \<union> set (line_declares stripped)\<rparr>
       in r2\<lparr>calls := calls r2 @ map (Pair line_num) (line_calls (namespaces result) stripped)\<rparr>)"

definition parse_file :: "string \<Rightarrow> extraction" where
  "parse_file content =
     fold scan_line (enumerate 1 (split_nl content))
       \<lparr>definitions = Map.empty, declares = {}, calls = [],
        namespaces = file_namespaces content\<rparr>"

text \<open>
  The numbers of the lines on which the loop body stores a definition of a symbol, in the
  order of the file.
\<close>

definition definition_lines :: "string \<Rightarrow> string \<Rightarrow> nat list" where
  "definition_lines content s =
     map fst (filter (\<lambda>(n, line). \<not> skipped (strip line) \<and> line_definition (strip line) = Some s)
       (enumerate 1 (split_nl content)))"

section \<open>Messages\<close>

text \<open>\<^verbatim>\<open>str(n)\<close> of a line number or a count, in decimal.\<close>

fun digits :: "nat \<Rightarrow> ustring" where
  "digits n = (if n < 10 then [48 + int n] else digits (n div 10) @ [48 + int (n mod 10)])"

declare digits.simps [simp del]

text \<open>The format \<^verbatim>\<open>{line_num:4d}\<close>: right-aligned in four columns.\<close>

definition digits4 :: "nat \<Rightarrow> ustring" where
  "digits4 n = replicate (4 - length (digits n)) 0x20 @ digits n"

text \<open>The message of an ordering violation, an f-string of the source.\<close>

definition forward_message :: "string \<Rightarrow> nat \<Rightarrow> nat \<Rightarrow> ustring" where
  "forward_message symbol call_line def_line =
     [0x51FD, 0x6570, 0x20, 0x27] @ utext symbol
     @ [0x27, 0x20, 0x5728, 0x7B2C, 0x20] @ digits call_line
     @ [0x20, 0x884C, 0x88AB, 0x8C03, 0x7528, 0xFF0C, 0x4F46, 0x5728, 0x7B2C, 0x20]
     @ digits def_line
     @ [0x20, 0x884C, 0x624D, 0x5B9A, 0x4E49, 0xFF08, 0x7F3A, 0x5C11] @ utext ''declare''
     @ [0xFF09]"

text \<open>The message of a failure while a file is processed; \<open>e\<close> is \<^verbatim>\<open>str(e)\<close>.\<close>

definition error_message :: "ustring \<Rightarrow> ustring" where
  "error_message e = [0x5206, 0x6790, 0x6587, 0x4EF6, 0x65F6, 0x51FA, 0x9519, 0x3A, 0x20] @ e"

section \<open>The order-violation detector\<close>

text \<open>An entry of \<^verbatim>\<open>self.issues\<close>: file, line, message.\<close>

type_synonym issue = "string \<times> nat \<times> ustring"

text \<open>The body of the loop over the calls of a file.\<close>

definition check_call :: "string \<Rightarrow> extraction \<Rightarrow> nat \<times> string \<Rightarrow> issue list" where
  "check_call file result = (\<lambda>(call_line, symbol).
     if symbol \<in> declares result then []
     else
       (case definitions result symbol of
          None \<Rightarrow> []
        | Some def_line \<Rightarrow>
            if def_line > call_line
            then [(file, call_line, forward_message symbol call_line def_line)]
            else []))"

definition check_calls :: "string \<Rightarrow> extraction \<Rightarrow> issue list \<Rightarrow> issue list" where
  "check_calls file result issues =
     fold (\<lambda>call acc. acc @ check_call file result call) (calls result) issues"

section \<open>Files\<close>

text \<open>
  A path is the list of its parts, which is what \<^verbatim>\<open>sorted\<close> compares on
  \<^verbatim>\<open>Path\<close> objects; \<^verbatim>\<open>str(path)\<close> joins the parts.
\<close>

type_synonym path = "string list"

fun join_parts :: "string list \<Rightarrow> string" where
  "join_parts [] = []"
| "join_parts [p] = p"
| "join_parts (p # q # ps) = p @ ''/'' @ join_parts (q # ps)"

definition str_path :: "path \<Rightarrow> string" where
  "str_path parts =
     (case parts of
        [] \<Rightarrow> ''.''
      | p # ps \<Rightarrow> if starts_with p ''/'' then p @ join_parts ps else join_parts parts)"

definition ends_with :: "string \<Rightarrow> string \<Rightarrow> bool" where
  "ends_with s suffix = starts_with (rev s) (rev suffix)"

text \<open>
  \<^verbatim>\<open>root.rglob("*.clj")\<close> on the entries below the root, given in the order in
  which the directory walk yields them.
\<close>

definition rglob_clj :: "path list \<Rightarrow> path list" where
  "rglob_clj entries = filter (\<lambda>p. p \<noteq> [] \<and> ends_with (last p) ''.clj'') entries"

definition find_clj_files :: "path list \<Rightarrow> path list" where
  "find_clj_files entries =
     sort (filter (\<lambda>path. \<not> contains ''build'' (str_path path)) (rglob_clj entries))"

text \<open>
  The decoder of \<^verbatim>\<open>open(file_path, 'r', encoding='utf-8', errors='ignore')\<close>, on the
  bytes of a file: a byte or a truncated sequence that is not UTF-8 is left out and the
  decoding goes on behind it; nothing is raised.
\<close>

definition continuation :: "char \<Rightarrow> bool" where
  "continuation b = (0x80 \<le> (of_char b :: int) \<and> (of_char b :: int) \<le> 0xBF)"

fun decode_utf8_ignore :: "char list \<Rightarrow> int list" where
  "decode_utf8_ignore [] = []"
| "decode_utf8_ignore (b # bs) =
     (let n = of_char b :: int in
      if n < 0x80 then n # decode_utf8_ignore bs
      else if n < 0xC2 \<or> 0xF5 \<le> n then decode_utf8_ignore bs
      else if n < 0xE0 then
        (case bs of
           [] \<Rightarrow> []
         | b2 # r2 \<Rightarrow>
             if continuation b2
             then ((n - 0xC0) * 64 + (of_char b2 - 0x80)) # decode_utf8_ignore r2
             else decode_utf8_ignore bs)
      else if n < 0xF0 then
        (case bs of
           [] \<Rightarrow> []
         | b2 # r2 \<Rightarrow>
             if \<not> continuation b2 \<or> (n = 0xE0 \<and> (of_char b2 :: int) < 0xA0)
                \<or> (n = 0xED \<and> 0xA0 \<le> (of_char b2 :: int))
             then decode_utf8_ignore bs
             else
               (case r2 of
                  [] \<Rightarrow> []
                | b3 # r3 \<Rightarrow>
                    if continuation b3
                    then ((n - 0xE0) * 4096 + (of_char b2 - 0x80) * 64 + (of_char b3 - 0x80))
                           # decode_utf8_ignore r3
                    else decode_utf8_ignore r2))
      else
        (case bs of
           [] \<Rightarrow> []
         | b2 # r2 \<Rightarrow>
             if \<not> continuation b2 \<or> (n = 0xF0 \<and> (of_char b2 :: int) < 0x90)
                \<or> (n = 0xF4 \<and> 0x90 \<le> (of_char b2 :: int))
             then decode_utf8_ignore bs
             else
               (case r2 of
                  [] \<Rightarrow> []
                | b3 # r3 \<Rightarrow>
                    if \<not> continuation b3 then decode_utf8_ignore r2
                    else
                      (case r3 of
                         [] \<Rightarrow> []
                       | b4 # r4 \<Rightarrow>
                           if continuation b4
                           then ((n - 0xF0) * 262144 + (of_char b2 - 0x80) * 4096
                                  + (of_char b3 - 0x80) * 64 + (of_char b4 - 0x80))
                                  # decode_utf8_ignore r4
                           else decode_utf8_ignore r3))))"

text \<open>
  The text mode of \<^verbatim>\<open>open\<close> turns \<^verbatim>\<open>\r\n\<close> and a lone \<^verbatim>\<open>\r\<close> into
  \<^verbatim>\<open>\n\<close>.
\<close>

fun universal_newlines :: "int list \<Rightarrow> int list" where
  "universal_newlines [] = []"
| "universal_newlines [c] = [if c = 0x0D then 0x0A else c]"
| "universal_newlines (c # d # ds) =
     (if c = 0x0D
      then (if d = 0x0A then 0x0A # universal_newlines ds else 0x0A # universal_newlines (d # ds))
      else c # universal_newlines (d # ds))"

text \<open>
  \<^verbatim>\<open>open\<close> and \<^verbatim>\<open>f.read()\<close> on a disk that, for a path, either refuses with the
  text of the exception or holds bytes: the code points of the content.
\<close>

type_synonym disk = "path \<Rightarrow> ustring + char list"

definition open_read :: "disk \<Rightarrow> path \<Rightarrow> ustring + ustring" where
  "open_read d file_path =
     (case d file_path of
        Inl e \<Rightarrow> Inl e
      | Inr bytes \<Rightarrow> Inr (universal_newlines (decode_utf8_ignore bytes)))"

text \<open>
  The scanner is modelled on the content after reading, as far as its code points are
  below 256: a file system gives, for a path, the failure or the content.
  Reading a file either raises, with the text of the exception, or gives its content.
  Nothing else in \<^verbatim>\<open>parse_file\<close> can raise: the decoder ignores errors and the
  one index expression is applied to a non-empty match.
\<close>

type_synonym filesystem = "path \<Rightarrow> ustring + string"

definition analyze_file :: "filesystem \<Rightarrow> path \<Rightarrow> issue list \<Rightarrow> issue list" where
  "analyze_file fs file_path issues =
     (case fs file_path of
        Inl e \<Rightarrow> issues @ [(str_path file_path, 0, error_message e)]
      | Inr content \<Rightarrow> check_calls (str_path file_path) (parse_file content) issues)"

definition print_line :: "ustring \<Rightarrow> ustring" where
  "print_line s = s @ [0x0A]"

text \<open>The result is what is printed and the issues.\<close>

definition analyze_directory :: "filesystem \<Rightarrow> path list \<Rightarrow> issue list \<Rightarrow> ustring \<times> issue list" where
  "analyze_directory fs entries issues =
     (let clj_files = find_clj_files entries
      in (print_line ([0x627E, 0x5230, 0x20] @ digits (length clj_files)
            @ [0x20, 0x4E2A] @ utext ''Clojure''
            @ [0x6587, 0x4EF6, 0xFF0C, 0x5F00, 0x59CB, 0x5206, 0x6790, 0x2E, 0x2E, 0x2E, 0x0A]),
          fold (analyze_file fs) clj_files issues))"

section \<open>The report\<close>

definition by_file :: "issue list \<Rightarrow> string \<Rightarrow> (nat \<times> ustring) list" where
  "by_file issues file_path = map snd (filter (\<lambda>issue. fst issue = file_path) issues)"

definition print_block :: "issue list \<Rightarrow> string \<Rightarrow> ustring" where
  "print_block issues file_path =
     print_line ([0x0A, 0x6587, 0x4EF6, 0x3A, 0x20] @ utext file_path)
     @ print_line (replicate 80 0x2D)
     @ concat (map (\<lambda>(line_num, message).
                 print_line ([0x20, 0x20, 0x884C, 0x20] @ digits4 line_num @ [0x3A, 0x20] @ message))
         (sort (by_file issues file_path)))"

definition print_report :: "issue list \<Rightarrow> ustring" where
  "print_report issues =
     (if issues = []
      then print_line ([0x5B, 0x4F, 0x4B, 0x5D, 0x20, 0x672A, 0x53D1, 0x73B0, 0x58F0, 0x660E,
             0x987A, 0x5E8F, 0x5F02, 0x5E38, 0xFF01])
      else
        print_line ([0x53D1, 0x73B0, 0x20] @ digits (length issues)
          @ [0x20, 0x4E2A, 0x6F5C, 0x5728, 0x95EE, 0x9898, 0xFF1A, 0x0A])
        @ print_line (replicate 80 0x3D)
        @ concat (map (print_block issues) (sort (remdups (map fst issues)))))"

text \<open>The run: what is written to the standard output, and the exit status.\<close>

definition main :: "filesystem \<Rightarrow> string \<Rightarrow> path list \<Rightarrow> ustring \<times> nat" where
  "main fs root_dir entries =
     (let (counted, issues) = analyze_directory fs entries []
      in (print_line ([0x5206, 0x6790, 0x76EE, 0x5F55, 0x3A, 0x20] @ utext root_dir @ [0x0A])
            @ counted @ print_report issues,
          if issues \<noteq> [] then 1 else 0))"

section \<open>Properties of the detector\<close>

lemma check_calls_concat:
  "fold (\<lambda>call acc. acc @ check_call file r call) cs issues = issues @ concat (map (check_call file r) cs)"
  by (induction cs arbitrary: issues) simp_all

lemma check_call_cases:
  "check_call file r (L, s) =
     (if s \<in> dom (definitions r) \<and> s \<notin> declares r \<and> L < the (definitions r s)
      then [(file, L, forward_message s L (the (definitions r s)))] else [])"
  by (auto simp: check_call_def split: option.splits)

lemma concat_check_call:
  "concat (map (check_call file r) cs) =
     map (\<lambda>(L, s). (file, L, forward_message s L (the (definitions r s))))
       (filter (\<lambda>(L, s). s \<in> dom (definitions r) \<and> s \<notin> declares r \<and> L < the (definitions r s)) cs)"
  by (induction cs) (auto simp: check_call_cases split: if_splits)

lemma utext_inj: "utext s = utext t \<Longrightarrow> s = t"
  unfolding utext_def by (induction s arbitrary: t) auto

lemma utext_small: "n \<in> set (utext s) \<Longrightarrow> n < 256"
proof -
  have "(of_char c :: int) < 256" for c
  proof -
    have "(of_char c :: int) mod 256 < 256" by (rule pos_mod_bound) simp
    then show ?thesis by simp
  qed
  then show "n \<in> set (utext s) \<Longrightarrow> n < 256"
    unfolding utext_def by auto
qed

lemma takeWhile_utext: "takeWhile (\<lambda>n. n < 256) (utext s @ 0x27 # 0x20 # 0x5728 # rest) = utext s @ [0x27, 0x20]"
proof -
  have "takeWhile (\<lambda>n. n < 256) (utext s @ ys) = utext s @ takeWhile (\<lambda>n. n < 256) ys" for ys
    by (rule takeWhile_append2) (simp add: utext_small)
  then show ?thesis by simp
qed

lemma forward_message_inj:
  assumes "forward_message s L D = forward_message s' L' D'"
  shows "s = s'"
proof -
  have "takeWhile (\<lambda>n. n < 256) (drop 4 (forward_message s L D)) = utext s @ [0x27, 0x20]" for s L D
    unfolding forward_message_def using takeWhile_utext by simp
  with assms have "utext s @ [0x27, 0x20] = utext s' @ [0x27, 0x20]" by metis
  then show ?thesis by (simp add: utext_inj)
qed

text \<open>
  Claim C1. The loop over the calls of a file appends one issue for each call entry
  \<open>(L, s)\<close>, in order, for which \<open>s\<close> is defined, is not declared, and is defined on a
  line beyond \<open>L\<close>, and nothing for any other entry: for a call entry \<open>(L, s)\<close> there is
  an issue on line \<open>L\<close> that names \<open>s\<close> if and only if the three conditions hold. A
  symbol that is neither defined nor declared is never reported.
\<close>

theorem detector_one_issue_per_qualifying_call:
  "check_calls file r issues =
     issues @ map (\<lambda>(L, s). (file, L, forward_message s L (the (definitions r s))))
       (filter (\<lambda>(L, s). s \<in> dom (definitions r) \<and> s \<notin> declares r \<and> L < the (definitions r s)) (calls r))
   \<and> ((L, s) \<in> set (calls r) \<longrightarrow>
        ((\<exists>D. (file, L, forward_message s L D) \<in> set (check_calls file r []))
         \<longleftrightarrow> s \<in> dom (definitions r) \<and> s \<notin> declares r \<and> L < the (definitions r s)))
   \<and> (definitions r s = None \<and> s \<notin> declares r \<longrightarrow>
        (file, L, forward_message s L D) \<notin> set (check_calls file r []))"
proof -
  let ?q = "\<lambda>(L, s). s \<in> dom (definitions r) \<and> s \<notin> declares r \<and> L < the (definitions r s)"
  let ?v = "\<lambda>(L, s). (file, L, forward_message s L (the (definitions r s)))"
  have shape: "check_calls file r issues = issues @ map ?v (filter ?q (calls r))" for issues
    unfolding check_calls_def by (simp only: check_calls_concat concat_check_call)
  have sound: "?q (L, s)" if "(file, L, forward_message s L D) \<in> set (check_calls file r [])" for L s D
  proof -
    from that obtain n s' where q: "?q (n, s')"
      and v: "(file, L, forward_message s L D) = ?v (n, s')"
      unfolding shape by auto
    from v have n: "L = n"
      and m: "forward_message s L D = forward_message s' n (the (definitions r s'))"
      by auto
    from m have "s = s'"
      by (rule forward_message_inj)
    with q n show ?thesis by simp
  qed
  have complete: "(file, L, forward_message s L (the (definitions r s))) \<in> set (check_calls file r [])"
    if "(L, s) \<in> set (calls r)" and "?q (L, s)"
  proof -
    from that have "?v (L, s) \<in> ?v ` set (filter ?q (calls r))"
      by (intro imageI) simp
    then show ?thesis unfolding shape by simp
  qed
  have none: "(file, L, forward_message s L D) \<notin> set (check_calls file r [])"
    if "definitions r s = None"
    using sound [of L s D] that by (auto simp: dom_def)
  show ?thesis
    using shape [of issues] sound [of L s] complete none by blast
qed

theorem detector_one_issue_per_qualifying_call_witness:
  "check_calls ''a.clj''
     \<lparr>definitions = [''helper'' \<mapsto> 3, ''util'' \<mapsto> 1, ''late'' \<mapsto> 9], declares = {''late''},
      calls = [(1, ''helper''), (2, ''util''), (2, ''late''), (2, ''ext''), (2, ''helper'')],
      namespaces = {}\<rparr> []
   = [(''a.clj'', 1, forward_message ''helper'' 1 3), (''a.clj'', 2, forward_message ''helper'' 2 3)]
   \<and> (''a.clj'', 2, forward_message ''ext'' 2 5) \<notin> set (check_calls ''a.clj''
     \<lparr>definitions = [''helper'' \<mapsto> 3, ''util'' \<mapsto> 1, ''late'' \<mapsto> 9], declares = {''late''},
      calls = [(1, ''helper''), (2, ''util''), (2, ''late''), (2, ''ext''), (2, ''helper'')],
      namespaces = {}\<rparr> [])"
proof -
  let ?r = "\<lparr>definitions = [''helper'' \<mapsto> 3, ''util'' \<mapsto> 1, ''late'' \<mapsto> 9], declares = {''late''},
      calls = [(1, ''helper''), (2, ''util''), (2, ''late''), (2, ''ext''), (2, ''helper'')],
      namespaces = {}\<rparr>"
  note t = detector_one_issue_per_qualifying_call [of "''a.clj''" ?r "[]" 2 "''ext''" 5]
  have h: "definitions ?r ''ext'' = None \<and> ''ext'' \<notin> declares ?r"
    by simp
  from t have "check_calls ''a.clj'' ?r [] =
      [] @ map (\<lambda>(L, s). (''a.clj'', L, forward_message s L (the (definitions ?r s))))
        (filter (\<lambda>(L, s). s \<in> dom (definitions ?r) \<and> s \<notin> declares ?r \<and> L < the (definitions ?r s))
          (calls ?r))"
    by (rule conjunct1)
  then have "check_calls ''a.clj'' ?r [] =
      [(''a.clj'', 1, forward_message ''helper'' 1 3), (''a.clj'', 2, forward_message ''helper'' 2 3)]"
    by simp
  moreover from t h have "(''a.clj'', 2, forward_message ''ext'' 2 5) \<notin> set (check_calls ''a.clj'' ?r [])"
    by blast
  ultimately show ?thesis
    by (rule conjI)
qed

section \<open>Properties of the scanner\<close>

lemma scan_line_namespaces: "namespaces (scan_line x r) = namespaces r"
  by (cases x) (simp add: scan_line_def Let_def split: option.splits)

lemma scan_line_declares:
  "declares (scan_line (n, l) r) =
     declares r \<union> (if skipped (strip l) then {} else set (line_declares (strip l)))"
  by (simp add: scan_line_def Let_def split: option.splits)

lemma scan_line_definitions:
  "definitions (scan_line (n, l) r) =
     (if skipped (strip l) then definitions r
      else case line_definition (strip l) of
             None \<Rightarrow> definitions r
           | Some s \<Rightarrow> (definitions r)(s \<mapsto> n))"
  by (simp add: scan_line_def Let_def split: option.splits)

lemma scan_line_calls:
  "calls (scan_line (n, l) r) =
     calls r @ (if skipped (strip l) then []
                else map (Pair n) (line_calls (namespaces r) (strip l)))"
  by (simp add: scan_line_def Let_def split: option.splits)

lemma fold_scan_line_namespaces: "namespaces (fold scan_line xs r) = namespaces r"
  by (induction xs arbitrary: r) (simp_all add: scan_line_namespaces)

lemma fold_scan_line_calls:
  "(n, s) \<in> set (calls (fold scan_line xs r)) \<Longrightarrow>
     (n, s) \<in> set (calls r) \<or> \<not> excluded (namespaces r) s"
proof (induction xs arbitrary: r)
  case Nil
  then show ?case by simp
next
  case (Cons x xs)
  obtain m l where x: "x = (m, l)" by (cases x)
  from Cons.prems have "(n, s) \<in> set (calls (fold scan_line xs (scan_line x r)))" by simp
  then have "(n, s) \<in> set (calls (scan_line x r)) \<or> \<not> excluded (namespaces r) s"
    using Cons.IH [of "scan_line x r"] by (simp add: scan_line_namespaces)
  then show ?case
    by (auto simp: x scan_line_calls line_calls_def split: if_splits)
qed

lemma parse_file_namespaces: "namespaces (parse_file content) = file_namespaces content"
  by (simp add: parse_file_def fold_scan_line_namespaces)

lemma parse_file_calls_not_excluded:
  "(n, s) \<in> set (calls (parse_file content)) \<Longrightarrow> \<not> excluded (file_namespaces content) s"
  using fold_scan_line_calls [of n s "enumerate 1 (split_nl content)"
    "\<lparr>definitions = Map.empty, declares = {}, calls = [], namespaces = file_namespaces content\<rparr>"]
  by (simp add: parse_file_def)

text \<open>
  Claim C6. A symbol at the head of a form is not recorded as a call, on any line, when it
  is in the allowlist, or contains a dot without starting with a namespace prefix of the
  file and a dot, or starts with an upper-case letter, or contains a dollar sign; so no
  violation names it. The test does not look at the definitions or the declarations.
\<close>

theorem classifier_excludes:
  assumes "s \<in> set allowlist
     \<or> (CHR ''.'' \<in> set s \<and> \<not> (\<exists>ns \<in> namespaces (parse_file content). starts_with s (ns @ ''.'')))
     \<or> (s \<noteq> [] \<and> is_upper (hd s)) \<or> CHR ''$'' \<in> set s"
  shows "(L, s) \<notin> set (calls (parse_file content))
     \<and> (file, L, forward_message s L D) \<notin> set (check_calls file (parse_file content) [])"
proof -
  from assms have ex: "excluded (file_namespaces content) s"
    by (cases s) (auto simp: excluded_def parse_file_namespaces)
  then have none: "(n, s) \<notin> set (calls (parse_file content))" for n
    using parse_file_calls_not_excluded by blast
  have "(file, L, forward_message s L D) \<notin> set (check_calls file (parse_file content) [])"
  proof
    assume "(file, L, forward_message s L D) \<in> set (check_calls file (parse_file content) [])"
    then obtain n s' where "(n, s') \<in> set (calls (parse_file content))"
      and "forward_message s L D = forward_message s' n (the (definitions (parse_file content) s'))"
      by (auto simp: check_calls_def check_calls_concat concat_check_call)
    then show False using none forward_message_inj by blast
  qed
  with none show ?thesis by simp
qed


theorem classifier_excludes_witness:
  "''str'' \<in> set allowlist
   \<and> (1, ''str'') \<notin> set (calls (parse_file ''(str 1) (defn str [] 2)''))
   \<and> (''a.clj'', 1, forward_message ''str'' 1 2)
       \<notin> set (check_calls ''a.clj'' (parse_file ''(str 1) (defn str [] 2)'') [])"
proof -
  have h: "''str'' \<in> set allowlist" by code_simp
  then have "''str'' \<in> set allowlist
     \<or> (CHR ''.'' \<in> set ''str'' \<and> \<not> (\<exists>ns \<in> namespaces (parse_file ''(str 1) (defn str [] 2)''). starts_with ''str'' (ns @ ''.'')))
     \<or> (''str'' \<noteq> [] \<and> is_upper (hd ''str'')) \<or> CHR ''$'' \<in> set ''str''"
    by (rule disjI1)
  from classifier_excludes [OF this] h show ?thesis by simp
qed

section \<open>Properties of the run\<close>

text \<open>
  Claim C7. The exit status is 0 when the run has recorded no issue, failures of single
  files included, and 1 otherwise.
\<close>

theorem exit_status:
  "snd (main fs root_dir entries) = (if snd (analyze_directory fs entries []) = [] then 0 else 1)"
  by (simp add: main_def split: prod.splits)

theorem exit_status_witness:
  "snd (main (\<lambda>p. Inr ''(defn f [] 1)'') ''.'' [[''a.clj'']]) = 0
   \<and> snd (main (\<lambda>p. Inl (utext ''denied'')) ''.'' [[''a.clj'']]) = 1"
proof -
  have a: "snd (analyze_directory (\<lambda>p. Inr ''(defn f [] 1)'') [[''a.clj'']] []) = []"
    by code_simp
  have b: "snd (analyze_directory (\<lambda>p. Inl (utext ''denied'')) [[''a.clj'']] []) \<noteq> []"
    by code_simp
  show ?thesis
    using exit_status [of "\<lambda>p. Inr ''(defn f [] 1)''" "''.''" "[[''a.clj'']]"]
      exit_status [of "\<lambda>p. Inl (utext ''denied'')" "''.''" "[[''a.clj'']]"] a b
    by simp
qed

lemma fold_analyze_file:
  "fold (analyze_file fs) files issues = issues @ concat (map (\<lambda>p. analyze_file fs p []) files)"
proof (induction files arbitrary: issues)
  case Nil
  then show ?case by simp
next
  case (Cons p ps)
  have "analyze_file fs p issues = issues @ analyze_file fs p []"
    by (simp add: analyze_file_def check_calls_def check_calls_concat split: sum.splits)
  with Cons show ?case by simp
qed

lemma fold_scan_line_call_lines:
  assumes "\<forall>(n, l) \<in> set xs. 1 \<le> n" and "\<forall>(n, s) \<in> set (calls r). 1 \<le> n"
  shows "\<forall>(n, s) \<in> set (calls (fold scan_line xs r)). 1 \<le> n"
  using assms
proof (induction xs arbitrary: r)
  case Nil
  then show ?case by simp
next
  case (Cons x xs)
  obtain m l where x: "x = (m, l)" by (cases x)
  from Cons.prems have "1 \<le> m" by (simp add: x)
  with Cons.prems(2) have "\<forall>(n, s) \<in> set (calls (scan_line x r)). 1 \<le> n"
    by (auto simp: x scan_line_calls)
  with Cons show ?case by simp
qed

lemma parse_file_call_lines: "(n, s) \<in> set (calls (parse_file content)) \<Longrightarrow> 1 \<le> n"
proof -
  have "\<forall>(n, l) \<in> set (enumerate 1 (split_nl content)). 1 \<le> n"
    by (auto simp: in_set_enumerate_eq)
  then have "\<forall>(n, s) \<in> set (calls (parse_file content)). 1 \<le> n"
    unfolding parse_file_def by (rule fold_scan_line_call_lines) simp
  then show "(n, s) \<in> set (calls (parse_file content)) \<Longrightarrow> 1 \<le> n"
    by blast
qed

text \<open>
  Claim C8, as the code has it. A file whose reading raises adds exactly one issue, with
  the path of the file, line 0 and, as message, the seven characters of the f-string of
  the source, a colon, a space and the description of the failure; and the run goes on:
  the issues of a run are the issues of each discovered file, one file after the other.
  A file that is read adds no issue on line 0, whatever its content; bytes that cannot be
  decoded are not a failure, since the decoder leaves them out.
\<close>

theorem read_failure_is_one_issue:
  "(fs p = Inl e \<longrightarrow>
      analyze_file fs p issues
        = issues @ [(str_path p, 0, [0x5206, 0x6790, 0x6587, 0x4EF6, 0x65F6, 0x51FA, 0x9519, 0x3A, 0x20] @ e)])
   \<and> (fs p = Inr content \<longrightarrow> (\<forall>(f, l, m) \<in> set (analyze_file fs p []). 1 \<le> l))
   \<and> (d p = Inr bytes \<longrightarrow> open_read d p = Inr (universal_newlines (decode_utf8_ignore bytes)))
   \<and> snd (analyze_directory fs entries issues)
        = issues @ concat (map (\<lambda>q. analyze_file fs q []) (find_clj_files entries))"
proof -
  have "\<forall>(f, l, m) \<in> set (analyze_file fs p []). 1 \<le> l" if "fs p = Inr content"
    using that parse_file_call_lines [of _ _ content]
    by (auto simp: analyze_file_def check_calls_def check_calls_concat concat_check_call)
  then show ?thesis
    by (simp add: analyze_file_def analyze_directory_def fold_analyze_file Let_def
        error_message_def open_read_def)
qed

theorem read_failure_is_one_issue_witness:
  "snd (analyze_directory (\<lambda>p. if p = [''a.clj''] then Inl (utext ''denied'') else Inr ''(f 1)'')
          [[''b.clj''], [''a.clj'']] [])
   = [(''a.clj'', 0, [0x5206, 0x6790, 0x6587, 0x4EF6, 0x65F6, 0x51FA, 0x9519, 0x3A, 0x20,
                      0x64, 0x65, 0x6E, 0x69, 0x65, 0x64])]"
proof -
  let ?fs = "\<lambda>p. if p = [''a.clj''] then Inl (utext ''denied'') else Inr ''(f 1)''"
  have f: "find_clj_files [[''b.clj''], [''a.clj'']] = [[''a.clj''], [''b.clj'']]"
    by code_simp
  have b: "analyze_file ?fs [''b.clj''] [] = []"
    by code_simp
  have s: "str_path [''a.clj''] = ''a.clj''"
    by code_simp
  have u: "utext ''denied'' = [0x64, 0x65, 0x6E, 0x69, 0x65, 0x64]"
    by code_simp
  note t = read_failure_is_one_issue [of ?fs "[''a.clj'']" "utext ''denied''" "[]" "[]"
      "\<lambda>p. Inl []" "[]" "[[''b.clj''], [''a.clj'']]"]
  from t have a: "analyze_file ?fs [''a.clj''] []
      = [] @ [(str_path [''a.clj''], 0, [0x5206, 0x6790, 0x6587, 0x4EF6, 0x65F6, 0x51FA, 0x9519, 0x3A, 0x20] @ utext ''denied'')]"
    by simp
  from t have "snd (analyze_directory ?fs [[''b.clj''], [''a.clj'']] [])
      = [] @ concat (map (\<lambda>q. analyze_file ?fs q []) (find_clj_files [[''b.clj''], [''a.clj'']]))"
    by blast
  then have "snd (analyze_directory ?fs [[''b.clj''], [''a.clj'']] [])
      = [(str_path [''a.clj''], 0, [0x5206, 0x6790, 0x6587, 0x4EF6, 0x65F6, 0x51FA, 0x9519, 0x3A, 0x20] @ utext ''denied'')]"
    by (simp only: f a b list.map concat.simps append.simps append_Nil2)
  then show ?thesis
    by (simp add: s u)
qed

text \<open>
  The claim as the specification states it names undecodable content as such a failure.
  A file with the bytes of \<^verbatim>\<open>(f 1)\<close> and a byte \<^verbatim>\<open>0xFF\<close> among them is read as
  \<^verbatim>\<open>(f 1)\<close>, and its analysis records no issue at all.
\<close>

theorem undecodable_content_counterexample:
  "open_read (\<lambda>p. Inr [CHR 0x28, CHR 0x66, CHR 0xFF, CHR 0x20, CHR 0x31, CHR 0x29]) [''a.clj'']
     = Inr (utext ''(f 1)'')
   \<and> analyze_file (\<lambda>p. Inr ''(f 1)'') [''a.clj''] [] = []"
  by code_simp

section \<open>Properties of the file discovery\<close>

text \<open>
  Claim C10. A path whose text contains \<^verbatim>\<open>build\<close> anywhere, in a directory name or in
  the file name, is not among the discovered files.
\<close>

theorem build_substring_excluded:
  "contains ''build'' (str_path p) \<Longrightarrow> p \<notin> set (find_clj_files entries)"
  by (simp add: find_clj_files_def)

theorem build_substring_excluded_witness:
  "contains ''build'' (str_path [''src'', ''rebuild.clj''])
   \<and> contains ''build'' (str_path [''builders'', ''core.clj''])
   \<and> [''src'', ''rebuild.clj''] \<notin> set (find_clj_files [[''src'', ''rebuild.clj''], [''builders'', ''core.clj''], [''src'', ''core.clj'']])
   \<and> [''builders'', ''core.clj''] \<notin> set (find_clj_files [[''src'', ''rebuild.clj''], [''builders'', ''core.clj''], [''src'', ''core.clj'']])"
proof -
  have h1: "contains ''build'' (str_path [''src'', ''rebuild.clj''])" by code_simp
  have h2: "contains ''build'' (str_path [''builders'', ''core.clj''])" by code_simp
  show ?thesis
    using h1 h2 build_substring_excluded [OF h1] build_substring_excluded [OF h2] by blast
qed


section \<open>Definitions of a symbol on several lines\<close>

lemma fold_scan_line_definitions:
  "definitions (fold scan_line xs r) s =
     (let ds = map fst (filter (\<lambda>(n, line). \<not> skipped (strip line) \<and> line_definition (strip line) = Some s) xs)
      in if ds = [] then definitions r s else Some (last ds))"
proof (induction xs arbitrary: r)
  case Nil
  then show ?case by simp
next
  case (Cons x xs)
  obtain n l where x: "x = (n, l)" by (cases x)
  show ?case
    by (simp add: Cons.IH x scan_line_definitions Let_def split: option.splits)
qed

lemma definition_lines_sorted: "sorted (definition_lines content s)"
  unfolding definition_lines_def
  by (rule sorted_filter) (simp only: map_fst_enumerate sorted_upt)

lemma last_sorted_Max: "sorted xs \<Longrightarrow> xs \<noteq> [] \<Longrightarrow> last xs = Max (set (xs :: nat list))"
proof -
  assume s: "sorted xs" and n: "xs \<noteq> []"
  have "Max (set xs) = last xs"
  proof (rule Max_eqI)
    show "finite (set xs)" by simp
    show "last xs \<in> set xs" using n by simp
    fix y assume "y \<in> set xs"
    then obtain i where "i < length xs" and "y = xs ! i" by (auto simp: in_set_conv_nth)
    then show "y \<le> last xs"
      using s n by (simp add: last_conv_nth sorted_nth_mono)
  qed
  then show ?thesis by simp
qed

text \<open>
  Claim C2, as the code has it. The assignment \<^verbatim>\<open>result['definitions'][symbol] = line_num\<close>
  is unconditional, so the mapping holds the number of the last line that defines the
  symbol: a later definition overwrites the line recorded by an earlier one.
\<close>

theorem last_definition_wins:
  "definitions (parse_file content) s =
     (if definition_lines content s = [] then None
      else Some (Max (set (definition_lines content s))))"
proof -
  have "definitions (parse_file content) s =
     (if definition_lines content s = [] then None else Some (last (definition_lines content s)))"
    unfolding parse_file_def definition_lines_def fold_scan_line_definitions Let_def by simp
  then show ?thesis
    using last_sorted_Max [OF definition_lines_sorted, of content s] by simp
qed

theorem last_definition_wins_witness:
  "definitions (parse_file (''(defn foo [] 1)'' @ [CHR 0x0A] @ ''(def bar 1)'' @ [CHR 0x0A] @ ''(defn foo [] 2)'')) ''foo'' = Some 3"
proof -
  have "definition_lines (''(defn foo [] 1)'' @ [CHR 0x0A] @ ''(def bar 1)'' @ [CHR 0x0A] @ ''(defn foo [] 2)'') ''foo'' = [1, 3]"
    by code_simp
  then show ?thesis
    using last_definition_wins [of "''(defn foo [] 1)'' @ [CHR 0x0A] @ ''(def bar 1)'' @ [CHR 0x0A] @ ''(defn foo [] 2)''" "''foo''"]
    by simp
qed

text \<open>
  The claim as the specification states it, that the first definition wins, fails on a file
  that defines \<^verbatim>\<open>foo\<close> on lines 1 and 2: the mapping holds line 2.
\<close>

theorem first_definition_counterexample:
  "definition_lines (''(defn foo [] 1)'' @ [CHR 0x0A] @ ''(defn foo [] 2)'') ''foo'' = [1, 2]
   \<and> definitions (parse_file (''(defn foo [] 1)'' @ [CHR 0x0A] @ ''(defn foo [] 2)'')) ''foo'' = Some 2"
  by code_simp

section \<open>Metadata before the name of a definition\<close>

text \<open>
  The token that the definition pattern captures has no white space, and the pattern of
  the substitution needs some: the substitution and the \<^verbatim>\<open>strip\<close> behind it change
  nothing, and the stored symbol is the captured token.
\<close>

lemma re_search_Some: "re_search m s = Some g \<Longrightarrow> \<exists>t. m t = Some g"
  by (induction s) (auto split: option.splits)

lemma def_at_token:
  assumes "def_at t = Some g"
  shows "g \<noteq> [] \<and> (\<forall>c \<in> set g. tok_char c)"
proof (cases "after_prefix ''(def'' t")
  case None
  with assms show ?thesis by (simp add: def_at_def)
next
  case (Some r)
  define r' where "r' = (case r of [] \<Rightarrow> r | c # t \<Rightarrow> if c = CHR ''n'' then t else r)"
  from assms Some have "g = takeWhile tok_char (dropWhile is_space r') \<and> g \<noteq> []"
    unfolding def_at_def Let_def r'_def by (simp split: if_splits)
  then show ?thesis
    by (auto dest: set_takeWhileD)
qed

lemma sub_meta_no_space:
  assumes "\<forall>c \<in> set g. \<not> is_space c"
  shows "sub_meta g = g"
proof -
  have "takeWhile is_space (dropWhile meta_char r) = []" if "set r \<subseteq> set g" for r
  proof (cases "dropWhile meta_char r")
    case Nil
    then show ?thesis by (simp only: takeWhile.simps)
  next
    case (Cons c cs)
    then have "c \<in> set (dropWhile meta_char r)" by simp
    then have "c \<in> set g" using that set_dropWhileD by fastforce
    with assms Cons show ?thesis by simp
  qed
  moreover have "set (case g of [] \<Rightarrow> g | c # t \<Rightarrow> if c = CHR 0x5E then t else g) \<subseteq> set g"
    by (cases g) auto
  ultimately show ?thesis
    by (simp add: sub_meta_def Let_def)
qed

lemma strip_no_space:
  assumes "\<forall>c \<in> set g. \<not> is_space c"
  shows "strip g = g"
proof -
  have d: "dropWhile is_space xs = xs" if "\<forall>c \<in> set xs. \<not> is_space c" for xs
    using that by (cases xs) auto
  show ?thesis using assms by (simp add: strip_def d)
qed


lemma line_definition_raw_token:
  "line_definition stripped =
     (case re_search def_at stripped of
        None \<Rightarrow> None
      | Some g \<Rightarrow> if starts_with g ''('' then None else Some g)"
proof (cases "re_search def_at stripped")
  case None
  then show ?thesis by (simp add: line_definition_def)
next
  case (Some g)
  then obtain t where "def_at t = Some g"
    using re_search_Some [of def_at stripped g] by auto
  then have "g \<noteq> []" and "\<forall>c \<in> set g. \<not> is_space c"
    using def_at_token [of t g] by (simp_all add: tok_char_def)
  then have "strip (sub_meta g) = g" and "g \<noteq> []"
    by (simp_all add: sub_meta_no_space strip_no_space)
  then have "line_definition stripped = (if starts_with g ''('' then None else Some g)"
    by (simp add: line_definition_def Some Let_def)
  then show ?thesis
    by (simp add: Some)
qed

text \<open>
  Claim C4. For \<^verbatim>\<open>(defn ^:private foo [] 1)\<close> the captured token is the annotation
  \<^verbatim>\<open>^:private\<close>; it is stored as the defined symbol, and the name \<^verbatim>\<open>foo\<close> is not.
\<close>

theorem metadata_not_removed:
  "line_definition (strip ''(defn ^:private foo [] 1)'') = Some ''^:private''
   \<and> definitions (parse_file ''(defn ^:private foo [] 1)'') ''^:private'' = Some 1
   \<and> definitions (parse_file ''(defn ^:private foo [] 1)'') ''foo'' = None"
  by code_simp

section \<open>A call without arguments\<close>

text \<open>
  Claim C3. In the file with \<^verbatim>\<open>(defn main [] (helper))\<close> on line 1 and
  \<^verbatim>\<open>(defn helper [] 1)\<close> on line 3, the call pattern asks for white space behind the
  symbol, so \<^verbatim>\<open>(helper)\<close> is not a call for the scanner and no issue is recorded.
\<close>

theorem scenario_call_without_argument:
  "definitions (parse_file (''(defn main [] (helper))'' @ [CHR 0x0A, CHR 0x0A] @ ''(defn helper [] 1)'')) ''helper'' = Some 3
   \<and> declares (parse_file (''(defn main [] (helper))'' @ [CHR 0x0A, CHR 0x0A] @ ''(defn helper [] 1)'')) = {}
   \<and> calls (parse_file (''(defn main [] (helper))'' @ [CHR 0x0A, CHR 0x0A] @ ''(defn helper [] 1)'')) = []
   \<and> analyze_file (\<lambda>p. Inr (''(defn main [] (helper))'' @ [CHR 0x0A, CHR 0x0A] @ ''(defn helper [] 1)''))
        [''core.clj''] [] = []"
  by code_simp

text \<open>With an argument the call is found, and the one issue cites lines 1 and 3.\<close>

lemma scenario_call_with_argument:
  "analyze_file (\<lambda>p. Inr (''(defn main [] (helper 1))'' @ [CHR 0x0A, CHR 0x0A] @ ''(defn helper [] 1)''))
        [''core.clj''] [] = [(''core.clj'', 1, forward_message ''helper'' 1 3)]"
  by code_simp

section \<open>Declared symbols\<close>

lemma fold_scan_line_declares:
  "declares (fold scan_line xs r) =
     declares r \<union> (\<Union>(n, l) \<in> set xs. if skipped (strip l) then {} else set (line_declares (strip l)))"
  by (induction xs arbitrary: r) (auto simp: scan_line_declares split: if_splits)

lemma parse_file_declares:
  "declares (parse_file content) =
     (\<Union>l \<in> set (split_nl content). if skipped (strip l) then {} else set (line_declares (strip l)))"
proof -
  have "set (split_nl content) = snd ` set (enumerate 1 (split_nl content))"
    by (simp flip: set_map add: map_snd_enumerate)
  then show ?thesis
    by (auto simp: parse_file_def fold_scan_line_declares split: if_splits)
qed

lemma declared_never_reported:
  assumes "s \<in> declares r"
  shows "(file, L, forward_message s L D) \<notin> set (check_calls file r [])"
proof
  assume "(file, L, forward_message s L D) \<in> set (check_calls file r [])"
  then obtain n s' where "s' \<notin> declares r"
    and "forward_message s L D = forward_message s' n (the (definitions r s'))"
    by (auto simp: check_calls_def check_calls_concat concat_check_call)
  then show False using assms forward_message_inj by blast
qed

text \<open>
  The scanner looks for a declare form on each line by itself and takes the first match.
  The lemmas below find that match from the text of the line.
\<close>

lemma starts_with_take: "starts_with s p \<longleftrightarrow> take (length p) s = p"
  unfolding starts_with_def
proof (induction p s rule: after_prefix.induct)
  case (1 s)
  then show ?case by simp
next
  case (2 p ps)
  then show ?case by simp
next
  case (3 p ps c cs)
  then show ?case by auto
qed

lemma starts_with_ext: "length p \<le> length x \<Longrightarrow> starts_with (x @ y) p = starts_with x p"
  by (simp add: starts_with_take)

lemma after_prefix_append: "after_prefix p (p @ s) = Some s"
  by (induction p) simp_all

lemma re_search_skip:
  assumes "\<not> contains (p @ [e]) (pre @ p)"
    and "\<And>s. m s \<noteq> None \<Longrightarrow> starts_with s (p @ [e])"
  shows "re_search m (pre @ p @ e # t) = re_search m (p @ e # t)"
  using assms(1)
proof (induction pre)
  case Nil
  then show ?case by simp
next
  case (Cons c cs)
  from Cons.prems have n: "\<not> starts_with (c # cs @ p) (p @ [e])"
    and r: "\<not> contains (p @ [e]) (cs @ p)"
    by simp_all
  have "starts_with ((c # cs @ p) @ (e # t)) (p @ [e]) = starts_with (c # cs @ p) (p @ [e])"
    by (rule starts_with_ext) simp
  with n have "\<not> starts_with (c # cs @ p @ e # t) (p @ [e])"
    by simp
  with assms(2) have "m (c # cs @ p @ e # t) = None"
    by blast
  then show ?case
    using Cons.IH [OF r] by simp
qed

lemma declare_at_starts: "declare_at s \<noteq> None \<Longrightarrow> starts_with s ''(declare''"
  by (auto simp: declare_at_def starts_with_def split: option.splits)

lemma re_search_skip_declare:
  assumes "\<not> contains ''(declare'' (pre @ ''(declar'')"
  shows "re_search declare_at (pre @ ''(declare'' @ t) = re_search declare_at (''(declare'' @ t)"
proof -
  have "\<not> contains (''(declar'' @ [CHR ''e'']) (pre @ ''(declar'')"
    using assms by simp
  then have "re_search declare_at (pre @ ''(declar'' @ CHR ''e'' # t)
      = re_search declare_at (''(declar'' @ CHR ''e'' # t)"
    by (rule re_search_skip) (use declare_at_starts in simp)
  then show ?thesis by simp
qed

lemma dropWhile_gap:
  assumes "s \<noteq> []" and "\<not> P (hd s)"
  shows "dropWhile P (gap @ s @ t) = dropWhile P gap @ s @ t"
proof (cases "\<forall>x \<in> set gap. P x")
  case True
  then have "dropWhile P gap = []" by simp
  moreover from assms have "dropWhile P (s @ t) = s @ t" by (cases s) auto
  ultimately show ?thesis using True by (simp add: dropWhile_append2)
next
  case False
  then show ?thesis by (auto simp: dropWhile_append1)
qed

lemma last_dropWhile: "dropWhile P xs \<noteq> [] \<Longrightarrow> last (dropWhile P xs) = last xs"
  by (induction xs) (auto split: if_splits)

lemma declare_at_form:
  assumes gap: "gap \<noteq> []" "is_space (hd gap)" "CHR 0x29 \<notin> set gap"
    and s: "s \<noteq> []" "\<forall>c \<in> set s. tok_char c"
    and rest: "CHR 0x29 \<notin> set rest"
  shows "declare_at (''(declare'' @ gap @ s @ rest @ CHR 0x29 # post)
     = Some (dropWhile is_space gap @ s @ rest)"
proof -
  let ?r = "gap @ s @ rest @ CHR 0x29 # post"
  let ?body = "dropWhile is_space gap @ s @ rest"
  have ap: "after_prefix ''(declare'' (''(declare'' @ ?r) = Some ?r"
    by (rule after_prefix_append)
  have ws: "takeWhile is_space ?r \<noteq> []"
    using gap by (cases gap) auto
  from s have hs: "\<not> is_space (hd s)"
    by (cases s) (auto simp: tok_char_def)
  have r2: "dropWhile is_space ?r = ?body @ CHR 0x29 # post"
    using dropWhile_gap [where P = is_space, OF s(1) hs, of gap "rest @ CHR 0x29 # post"] by simp
  have nb: "\<forall>c \<in> set ?body. c \<noteq> CHR 0x29"
    using gap(3) s(2) rest set_dropWhileD [of _ is_space gap] by (auto simp: tok_char_def)
  then have tw: "takeWhile (\<lambda>c. c \<noteq> CHR 0x29) (?body @ CHR 0x29 # post) = ?body"
    by (simp add: takeWhile_tail)
  from nb have dw: "dropWhile (\<lambda>c. c \<noteq> CHR 0x29) (?body @ CHR 0x29 # post) = CHR 0x29 # post"
    by (simp add: dropWhile_append2)
  have ne: "?body \<noteq> []" using s(1) by simp
  show ?thesis
    unfolding declare_at_def ap option.case Let_def r2 tw dw
    using ws ne by simp
qed

lemma token_at_None: "\<not> tok_char c \<Longrightarrow> token_at (c # cs) = None"
  by (simp add: token_at_def)

lemma find_all_token_mid:
  assumes "s \<noteq> []" and "\<forall>c \<in> set s. tok_char c"
    and "b2 = [] \<or> \<not> tok_char (hd b2)"
  shows "b1 = [] \<or> \<not> tok_char (last b1) \<Longrightarrow> s \<in> set (find_all token_at (b1 @ s @ b2))"
proof (induction "length b1" arbitrary: b1 rule: less_induct)
  case less
  show ?case
  proof (cases b1)
    case Nil
    from assms obtain c cs where sc: "s = c # cs" by (cases s) auto
    have "takeWhile tok_char (s @ b2) = s"
      using assms(2,3) by (cases b2) (auto simp: takeWhile_tail)
    then have "token_at (s @ b2) = Some (s, length s)"
      using assms(1) by (simp add: token_at_def)
    then show ?thesis
      using Nil sc by simp
  next
    case (Cons c cs)
    with less.prems have lastb: "\<not> tok_char (last b1)" by simp
    show ?thesis
    proof (cases "tok_char c")
      case False
      have "cs = [] \<or> \<not> tok_char (last cs)"
        using lastb Cons by (cases cs) auto
      then have "s \<in> set (find_all token_at (cs @ s @ b2))"
        using less.hyps [of cs] Cons by simp
      then show ?thesis
        using Cons False by (simp add: token_at_None)
    next
      case True
      let ?t = "takeWhile tok_char b1"
      let ?d = "dropWhile tok_char b1"
      have ex: "\<exists>x \<in> set b1. \<not> tok_char x"
        using lastb Cons by (metis last_in_set list.distinct(1))
      then have tw: "takeWhile tok_char (b1 @ s @ b2) = ?t"
        by (auto simp: takeWhile_append1)
      have dne: "?d \<noteq> []"
        using ex by simp
      have tne: "?t \<noteq> []"
        using True Cons by simp
      have len: "length ?d < length b1"
        using tne by (metis length_append takeWhile_dropWhile_id length_greater_0_conv less_add_same_cancel2)
      have lastd: "\<not> tok_char (last ?d)"
        using lastb dne by (simp add: last_dropWhile)
      have ih: "s \<in> set (find_all token_at (?d @ s @ b2))"
        using less.hyps [OF len] lastd by simp
      have "token_at (b1 @ s @ b2) = Some (?t, length ?t)"
        using tw tne by (simp add: token_at_def Let_def)
      moreover have "drop (length ?t - 1) (cs @ s @ b2) = ?d @ s @ b2"
      proof -
        have "drop (length ?t) (b1 @ s @ b2) = ?d @ s @ b2"
          by (metis append.assoc append_eq_conv_conj takeWhile_dropWhile_id)
        moreover have "drop (length ?t) (b1 @ s @ b2) = drop (length ?t - 1) (cs @ s @ b2)"
          using tne Cons by (cases "length ?t") auto
        ultimately show ?thesis by simp
      qed
      ultimately have "find_all token_at (b1 @ s @ b2) = ?t # find_all token_at (?d @ s @ b2)"
        using Cons by simp
      with ih show ?thesis by simp
    qed
  qed
qed

text \<open>
  Claim C5, as the code has it. Let a line of the file, without the white space around it,
  be some text, then \<^verbatim>\<open>(declare\<close>, white space, symbols separated by white space, and
  a closing parenthesis, where the line does not start with a semicolon and has no
  \<^verbatim>\<open>(declare\<close> before this one. Then every symbol \<open>s\<close> among these is in the
  declarations of the file, and no issue names \<open>s\<close>, whatever the lines of its calls and of
  its definition and wherever the line of the form stands.
\<close>

theorem declare_form_suppresses:
  assumes "line \<in> set (split_nl content)"
    and "strip line = pre @ ''(declare'' @ gap @ s @ rest @ '')'' @ post"
    and "pre = [] \<or> hd pre \<noteq> CHR '';''"
    and "\<not> contains ''(declare'' (pre @ ''(declar'')"
    and "gap \<noteq> []" and "is_space (hd gap)" and "is_space (last gap)" and "CHR 0x29 \<notin> set gap"
    and "s \<noteq> []" and "\<forall>c \<in> set s. \<not> is_space c \<and> c \<noteq> CHR 0x29"
    and "rest = [] \<or> is_space (hd rest)" and "CHR 0x29 \<notin> set rest"
  shows "s \<in> declares (parse_file content)
     \<and> (file, L, forward_message s L D) \<notin> set (check_calls file (parse_file content) [])"
proof -
  let ?body = "dropWhile is_space gap @ s @ rest"
  have tok: "\<forall>c \<in> set s. tok_char c"
    using assms(10) by (simp add: tok_char_def)
  have form: "strip line = pre @ ''(declare'' @ (gap @ s @ rest @ CHR 0x29 # post)"
    using assms(2) by simp
  have at: "declare_at (''(declare'' @ gap @ s @ rest @ CHR 0x29 # post) = Some ?body"
    using assms(5,6,8,9) tok assms(12) by (rule declare_at_form)
  have "re_search declare_at (strip line)
      = re_search declare_at (''(declare'' @ gap @ s @ rest @ CHR 0x29 # post)"
    unfolding form using assms(4) by (rule re_search_skip_declare)
  also have "\<dots> = Some ?body"
    using at by simp
  finally have found: "re_search declare_at (strip line) = Some ?body" .
  have b1: "dropWhile is_space gap = [] \<or> \<not> tok_char (last (dropWhile is_space gap))"
  proof (cases "dropWhile is_space gap = []")
    case True
    then show ?thesis by (rule disjI1)
  next
    case False
    then have "last (dropWhile is_space gap) = last gap"
      by (rule last_dropWhile)
    with assms(7) show ?thesis
      by (simp add: tok_char_def)
  qed
  have b2: "rest = [] \<or> \<not> tok_char (hd rest)"
    using assms(11) by (auto simp: tok_char_def)
  have "s \<in> set (find_all token_at ?body)"
    using assms(9) tok b2 b1 by (rule find_all_token_mid)
  then have listed: "s \<in> set (line_declares (strip line))"
    by (simp add: line_declares_def found)
  have "take 1 (strip line) \<noteq> '';''"
    using assms(3) unfolding form by (cases pre) auto
  then have scanned: "\<not> skipped (strip line)"
    unfolding skipped_def starts_with_take using form by auto
  from assms(1) scanned listed have d: "s \<in> declares (parse_file content)"
    by (auto simp: parse_file_declares)
  then show ?thesis
    using declared_never_reported by blast
qed

theorem declare_form_suppresses_witness:
  "(''a.clj'', 1, forward_message ''helper'' 1 2)
     \<notin> set (check_calls ''a.clj''
         (parse_file (''(helper 1)'' @ [CHR 0x0A] @ ''(defn helper [] 1)'' @ [CHR 0x0A] @ ''  (declare a helper b) ; late'')) [])
   \<and> ''helper'' \<in> declares
         (parse_file (''(helper 1)'' @ [CHR 0x0A] @ ''(defn helper [] 1)'' @ [CHR 0x0A] @ ''  (declare a helper b) ; late''))"
proof -
  let ?content = "''(helper 1)'' @ [CHR 0x0A] @ ''(defn helper [] 1)'' @ [CHR 0x0A] @ ''  (declare a helper b) ; late''"
  let ?line = "''  (declare a helper b) ; late''"
  have h1: "?line \<in> set (split_nl ?content)"
    by code_simp
  have h2: "strip ?line = [] @ ''(declare'' @ '' a '' @ ''helper'' @ '' b'' @ '')'' @ '' ; late''"
    by code_simp
  have h3: "([] :: string) = [] \<or> hd ([] :: string) \<noteq> CHR '';''"
    by simp
  have h4: "\<not> contains ''(declare'' ([] @ ''(declar'')"
    by code_simp
  have h5: "'' a '' \<noteq> []" "is_space (hd '' a '')" "is_space (last '' a '')" "CHR 0x29 \<notin> set '' a ''"
    by code_simp+
  have h6: "''helper'' \<noteq> []" "\<forall>c \<in> set ''helper''. \<not> is_space c \<and> c \<noteq> CHR 0x29"
    by code_simp+
  have h7: "'' b'' = [] \<or> is_space (hd '' b'')" "CHR 0x29 \<notin> set '' b''"
    by code_simp+
  show ?thesis
    using declare_form_suppresses [OF h1 h2 h3 h4 h5 h6 h7, of "''a.clj''" 1 2] by blast
qed

text \<open>
  The claim as the specification states it, for a declare form anywhere in the file, fails
  for a form that spans two lines and for the second form of a line: the scanner does not
  see them, and the call of the declared symbol before its definition is reported.
\<close>

theorem declare_form_counterexample:
  "check_calls ''a.clj''
     (parse_file (''(declare helper'' @ [CHR 0x0A] @ '' other)'' @ [CHR 0x0A] @ ''(helper 1)'' @ [CHR 0x0A] @ ''(defn helper [] 1)'')) []
     = [(''a.clj'', 3, forward_message ''helper'' 3 4)]
   \<and> check_calls ''a.clj''
     (parse_file (''(declare a) (declare helper)'' @ [CHR 0x0A] @ ''(helper 1)'' @ [CHR 0x0A] @ ''(defn helper [] 1)'')) []
     = [(''a.clj'', 2, forward_message ''helper'' 2 3)]"
  by code_simp

section \<open>The report does not depend on the order of the directory walk\<close>

lemma sort_mset_cong: "mset xs = mset ys \<Longrightarrow> sort xs = sort ys"
  by (rule properties_for_sort) simp_all

lemma find_clj_files_mset:
  "mset entries1 = mset entries2 \<Longrightarrow> find_clj_files entries1 = find_clj_files entries2"
  unfolding find_clj_files_def rglob_clj_def
  by (rule sort_mset_cong) simp

lemma print_report_mset:
  assumes "mset issues1 = mset issues2"
  shows "print_report issues1 = print_report issues2"
proof -
  from assms have e: "issues1 = [] \<longleftrightarrow> issues2 = []"
    by (metis mset_zero_iff)
  from assms have l: "length issues1 = length issues2"
    by (rule mset_eq_length)
  from assms have "set issues1 = set issues2"
    by (rule mset_eq_setD)
  then have "set (map fst issues1) = set (map fst issues2)"
    by simp
  then have k: "sort (remdups (map fst issues1)) = sort (remdups (map fst issues2))"
    by (simp flip: sorted_list_of_set_sort_remdups)
  have "mset (by_file issues1 f) = mset (by_file issues2 f)" for f
    unfolding by_file_def using assms by simp
  then have "sort (by_file issues1 f) = sort (by_file issues2 f)" for f
    by (rule sort_mset_cong)
  then have "print_block issues1 f = print_block issues2 f" for f
    by (simp add: print_block_def)
  then have "print_block issues1 = print_block issues2"
    by (rule ext)
  with e l k show ?thesis
    by (simp add: print_report_def)
qed

lemma sort_remdups_set: "sort (remdups xs) = sorted_list_of_set (set xs)"
  by (simp add: sorted_list_of_set_sort_remdups)

lemma find_clj_files_mset_eq:
  "mset (find_clj_files entries)
     = filter_mset (\<lambda>p. p \<noteq> [] \<and> ends_with (last p) ''.clj'' \<and> \<not> contains ''build'' (str_path p))
         (mset entries)"
  unfolding find_clj_files_def rglob_clj_def
  by (simp add: conj_commute cong: conj_cong)

lemma print_report_text:
  assumes "issues \<noteq> []"
  shows "print_report issues =
     [0x53D1, 0x73B0, 0x20] @ digits (length issues)
     @ [0x20, 0x4E2A, 0x6F5C, 0x5728, 0x95EE, 0x9898, 0xFF1A, 0x0A, 0x0A]
     @ replicate 80 0x3D @ [0x0A]
     @ concat (map (\<lambda>file_path.
          [0x0A, 0x6587, 0x4EF6, 0x3A, 0x20] @ utext file_path @ [0x0A]
          @ replicate 80 0x2D @ [0x0A]
          @ concat (map (\<lambda>(line_num, message).
               [0x20, 0x20, 0x884C, 0x20] @ digits4 line_num @ [0x3A, 0x20] @ message @ [0x0A])
             (sort (map snd (filter (\<lambda>issue. fst issue = file_path) issues)))))
        (sorted_list_of_set (fst ` set issues)))"
proof -
  have "print_block issues = (\<lambda>file_path.
          [0x0A, 0x6587, 0x4EF6, 0x3A, 0x20] @ utext file_path @ [0x0A]
          @ replicate 80 0x2D @ [0x0A]
          @ concat (map (\<lambda>(line_num, message).
               [0x20, 0x20, 0x884C, 0x20] @ digits4 line_num @ [0x3A, 0x20] @ message @ [0x0A])
             (sort (map snd (filter (\<lambda>issue. fst issue = file_path) issues)))))"
    by (rule ext) (simp add: print_block_def print_line_def by_file_def)
  moreover have "sort (remdups (map fst issues)) = sorted_list_of_set (fst ` set issues)"
    by (simp add: sort_remdups_set)
  ultimately show ?thesis
    using assms by (simp add: print_report_def print_line_def)
qed

text \<open>
  Claim C9. The output and the exit status of a run are the same for any two orders in
  which the directory walk yields the same entries: the discovered files are the sorted
  list of the entries that qualify, and the output is the two head lines and the report
  of the issues of these files. The report is the same for any two orders of the same
  issues: behind its head lines it has one block for each path, the paths in sorted
  order without repetition, and in each block one line for each issue of the path, sorted
  by line number and then message.
\<close>

theorem report_sorted_deterministic:
  "(mset entries1 = mset entries2 \<longrightarrow> main fs root_dir entries1 = main fs root_dir entries2)
   \<and> sorted (find_clj_files entries)
   \<and> mset (find_clj_files entries)
       = filter_mset (\<lambda>p. p \<noteq> [] \<and> ends_with (last p) ''.clj'' \<and> \<not> contains ''build'' (str_path p))
           (mset entries)
   \<and> fst (main fs root_dir entries)
       = [0x5206, 0x6790, 0x76EE, 0x5F55, 0x3A, 0x20] @ utext root_dir @ [0x0A, 0x0A]
         @ [0x627E, 0x5230, 0x20] @ digits (length (find_clj_files entries))
         @ [0x20, 0x4E2A, 0x43, 0x6C, 0x6F, 0x6A, 0x75, 0x72, 0x65, 0x6587, 0x4EF6, 0xFF0C,
            0x5F00, 0x59CB, 0x5206, 0x6790, 0x2E, 0x2E, 0x2E, 0x0A, 0x0A]
         @ print_report (concat (map (\<lambda>q. analyze_file fs q []) (find_clj_files entries)))
   \<and> (mset issues1 = mset issues2 \<longrightarrow> print_report issues1 = print_report issues2)
   \<and> print_report [] =
       [0x5B, 0x4F, 0x4B, 0x5D, 0x20, 0x672A, 0x53D1, 0x73B0, 0x58F0, 0x660E, 0x987A, 0x5E8F,
        0x5F02, 0x5E38, 0xFF01, 0x0A]
   \<and> (issues \<noteq> [] \<longrightarrow> print_report issues =
       [0x53D1, 0x73B0, 0x20] @ digits (length issues)
       @ [0x20, 0x4E2A, 0x6F5C, 0x5728, 0x95EE, 0x9898, 0xFF1A, 0x0A, 0x0A]
       @ replicate 80 0x3D @ [0x0A]
       @ concat (map (\<lambda>file_path.
            [0x0A, 0x6587, 0x4EF6, 0x3A, 0x20] @ utext file_path @ [0x0A]
            @ replicate 80 0x2D @ [0x0A]
            @ concat (map (\<lambda>(line_num, message).
                 [0x20, 0x20, 0x884C, 0x20] @ digits4 line_num @ [0x3A, 0x20] @ message @ [0x0A])
               (sort (map snd (filter (\<lambda>issue. fst issue = file_path) issues)))))
          (sorted_list_of_set (fst ` set issues))))"
proof -
  have a: "main fs root_dir entries1 = main fs root_dir entries2" if "mset entries1 = mset entries2"
    using find_clj_files_mset [OF that] by (simp add: main_def analyze_directory_def)
  have b: "sorted (find_clj_files entries)"
    by (simp add: find_clj_files_def)
  have c: "fst (main fs root_dir entries)
       = [0x5206, 0x6790, 0x76EE, 0x5F55, 0x3A, 0x20] @ utext root_dir @ [0x0A, 0x0A]
         @ [0x627E, 0x5230, 0x20] @ digits (length (find_clj_files entries))
         @ [0x20, 0x4E2A, 0x43, 0x6C, 0x6F, 0x6A, 0x75, 0x72, 0x65, 0x6587, 0x4EF6, 0xFF0C,
            0x5F00, 0x59CB, 0x5206, 0x6790, 0x2E, 0x2E, 0x2E, 0x0A, 0x0A]
         @ print_report (concat (map (\<lambda>q. analyze_file fs q []) (find_clj_files entries)))"
    by (simp add: main_def analyze_directory_def Let_def print_line_def fold_analyze_file utext_def)
  have d: "print_report [] =
       [0x5B, 0x4F, 0x4B, 0x5D, 0x20, 0x672A, 0x53D1, 0x73B0, 0x58F0, 0x660E, 0x987A, 0x5E8F,
        0x5F02, 0x5E38, 0xFF01, 0x0A]"
    by (simp add: print_report_def print_line_def)
  show ?thesis
    using a b c d find_clj_files_mset_eq print_report_mset print_report_text
    by (intro conjI impI) blast+
qed

theorem report_sorted_deterministic_witness:
  "main (\<lambda>p. if p = [''b.clj''] then Inl (utext ''denied'')
              else Inr (''(zeta 1) (alpha 2)'' @ [CHR 0x0A] @ ''(defn alpha [] 1)'' @ [CHR 0x0A] @ ''(defn zeta [] 2)''))
        ''.'' [[''b.clj''], [''a.clj'']]
   = main (\<lambda>p. if p = [''b.clj''] then Inl (utext ''denied'')
              else Inr (''(zeta 1) (alpha 2)'' @ [CHR 0x0A] @ ''(defn alpha [] 1)'' @ [CHR 0x0A] @ ''(defn zeta [] 2)''))
        ''.'' [[''a.clj''], [''b.clj'']]
   \<and> main (\<lambda>p. if p = [''b.clj''] then Inl (utext ''denied'')
              else Inr (''(zeta 1) (alpha 2)'' @ [CHR 0x0A] @ ''(defn alpha [] 1)'' @ [CHR 0x0A] @ ''(defn zeta [] 2)''))
        ''.'' [[''b.clj''], [''a.clj'']]
     = ([0x5206, 0x6790, 0x76EE, 0x5F55, 0x3A, 0x20, 0x2E, 0xA, 0xA, 0x627E, 0x5230, 0x20, 0x32,
          0x20, 0x4E2A, 0x43, 0x6C, 0x6F, 0x6A, 0x75, 0x72, 0x65, 0x6587, 0x4EF6, 0xFF0C, 0x5F00,
          0x59CB, 0x5206, 0x6790, 0x2E, 0x2E, 0x2E, 0xA, 0xA, 0x53D1, 0x73B0, 0x20, 0x33, 0x20,
          0x4E2A, 0x6F5C, 0x5728, 0x95EE, 0x9898, 0xFF1A, 0xA, 0xA]
       @ replicate 80 0x3D
       @ [0xA, 0xA, 0x6587, 0x4EF6, 0x3A, 0x20, 0x61, 0x2E, 0x63, 0x6C, 0x6A, 0xA]
       @ replicate 80 0x2D
       @ [0xA, 0x20, 0x20, 0x884C, 0x20, 0x20, 0x20, 0x20, 0x31, 0x3A, 0x20, 0x51FD, 0x6570,
          0x20, 0x27, 0x61, 0x6C, 0x70, 0x68, 0x61, 0x27, 0x20, 0x5728, 0x7B2C, 0x20, 0x31, 0x20,
          0x884C, 0x88AB, 0x8C03, 0x7528, 0xFF0C, 0x4F46, 0x5728, 0x7B2C, 0x20, 0x32, 0x20,
          0x884C, 0x624D, 0x5B9A, 0x4E49, 0xFF08, 0x7F3A, 0x5C11, 0x64, 0x65, 0x63, 0x6C, 0x61,
          0x72, 0x65, 0xFF09, 0xA, 0x20, 0x20, 0x884C, 0x20, 0x20, 0x20, 0x20, 0x31, 0x3A, 0x20,
          0x51FD, 0x6570, 0x20, 0x27, 0x7A, 0x65, 0x74, 0x61, 0x27, 0x20, 0x5728, 0x7B2C, 0x20,
          0x31, 0x20, 0x884C, 0x88AB, 0x8C03, 0x7528, 0xFF0C, 0x4F46, 0x5728, 0x7B2C, 0x20, 0x33,
          0x20, 0x884C, 0x624D, 0x5B9A, 0x4E49, 0xFF08, 0x7F3A, 0x5C11, 0x64, 0x65, 0x63, 0x6C,
          0x61, 0x72, 0x65, 0xFF09, 0xA, 0xA, 0x6587, 0x4EF6, 0x3A, 0x20, 0x62, 0x2E, 0x63, 0x6C,
          0x6A, 0xA]
       @ replicate 80 0x2D
       @ [0xA, 0x20, 0x20, 0x884C, 0x20, 0x20, 0x20, 0x20, 0x30, 0x3A, 0x20, 0x5206, 0x6790,
          0x6587, 0x4EF6, 0x65F6, 0x51FA, 0x9519, 0x3A, 0x20, 0x64, 0x65, 0x6E, 0x69, 0x65, 0x64,
          0xA], 1)
   \<and> print_report [(''b.clj'', 2, [0x79]), (''a.clj'', 3, [0x78]), (''b.clj'', 1, [0x7A]),
                    (''b.clj'', 1, [0x79]), (''a.clj'', 12, [0x77])]
     = [0x53D1, 0x73B0, 0x20, 0x35, 0x20, 0x4E2A, 0x6F5C, 0x5728, 0x95EE, 0x9898, 0xFF1A, 0xA,
          0xA]
       @ replicate 80 0x3D
       @ [0xA, 0xA, 0x6587, 0x4EF6, 0x3A, 0x20, 0x61, 0x2E, 0x63, 0x6C, 0x6A, 0xA]
       @ replicate 80 0x2D
       @ [0xA, 0x20, 0x20, 0x884C, 0x20, 0x20, 0x20, 0x20, 0x33, 0x3A, 0x20, 0x78, 0xA, 0x20,
          0x20, 0x884C, 0x20, 0x20, 0x20, 0x31, 0x32, 0x3A, 0x20, 0x77, 0xA, 0xA, 0x6587, 0x4EF6,
          0x3A, 0x20, 0x62, 0x2E, 0x63, 0x6C, 0x6A, 0xA]
       @ replicate 80 0x2D
       @ [0xA, 0x20, 0x20, 0x884C, 0x20, 0x20, 0x20, 0x20, 0x31, 0x3A, 0x20, 0x79, 0xA, 0x20,
          0x20, 0x884C, 0x20, 0x20, 0x20, 0x20, 0x31, 0x3A, 0x20, 0x7A, 0xA, 0x20, 0x20, 0x884C,
          0x20, 0x20, 0x20, 0x20, 0x32, 0x3A, 0x20, 0x79, 0xA]"
proof -
  let ?fs = "\<lambda>p. if p = [''b.clj''] then Inl (utext ''denied'')
              else Inr (''(zeta 1) (alpha 2)'' @ [CHR 0x0A] @ ''(defn alpha [] 1)'' @ [CHR 0x0A] @ ''(defn zeta [] 2)'')"
  let ?issues = "[(''b.clj'', 2, [0x79]), (''a.clj'', 3, [0x78]), (''b.clj'', 1, [0x7A]),
                    (''b.clj'', 1, [0x79]), (''a.clj'', 12, [0x77])] :: issue list"
  note t = report_sorted_deterministic [of "[[''b.clj''], [''a.clj'']]" "[[''a.clj''], [''b.clj'']]"
      ?fs "''.''" "[]" "[]" "[]" ?issues]
  have m: "mset [[''b.clj''], [''a.clj'']] = mset [[''a.clj''], [''b.clj'']]"
    by (simp add: add_mset_commute)
  from t have "mset [[''b.clj''], [''a.clj'']] = mset [[''a.clj''], [''b.clj'']]
      \<longrightarrow> main ?fs ''.'' [[''b.clj''], [''a.clj'']] = main ?fs ''.'' [[''a.clj''], [''b.clj'']]"
    by (elim conjE)
  with m have one: "main ?fs ''.'' [[''b.clj''], [''a.clj'']] = main ?fs ''.'' [[''a.clj''], [''b.clj'']]"
    by (rule rev_mp)
  have two: "main ?fs ''.'' [[''b.clj''], [''a.clj'']]
     = ([0x5206, 0x6790, 0x76EE, 0x5F55, 0x3A, 0x20, 0x2E, 0xA, 0xA, 0x627E, 0x5230, 0x20, 0x32,
          0x20, 0x4E2A, 0x43, 0x6C, 0x6F, 0x6A, 0x75, 0x72, 0x65, 0x6587, 0x4EF6, 0xFF0C, 0x5F00,
          0x59CB, 0x5206, 0x6790, 0x2E, 0x2E, 0x2E, 0xA, 0xA, 0x53D1, 0x73B0, 0x20, 0x33, 0x20,
          0x4E2A, 0x6F5C, 0x5728, 0x95EE, 0x9898, 0xFF1A, 0xA, 0xA]
       @ replicate 80 0x3D
       @ [0xA, 0xA, 0x6587, 0x4EF6, 0x3A, 0x20, 0x61, 0x2E, 0x63, 0x6C, 0x6A, 0xA]
       @ replicate 80 0x2D
       @ [0xA, 0x20, 0x20, 0x884C, 0x20, 0x20, 0x20, 0x20, 0x31, 0x3A, 0x20, 0x51FD, 0x6570,
          0x20, 0x27, 0x61, 0x6C, 0x70, 0x68, 0x61, 0x27, 0x20, 0x5728, 0x7B2C, 0x20, 0x31, 0x20,
          0x884C, 0x88AB, 0x8C03, 0x7528, 0xFF0C, 0x4F46, 0x5728, 0x7B2C, 0x20, 0x32, 0x20,
          0x884C, 0x624D, 0x5B9A, 0x4E49, 0xFF08, 0x7F3A, 0x5C11, 0x64, 0x65, 0x63, 0x6C, 0x61,
          0x72, 0x65, 0xFF09, 0xA, 0x20, 0x20, 0x884C, 0x20, 0x20, 0x20, 0x20, 0x31, 0x3A, 0x20,
          0x51FD, 0x6570, 0x20, 0x27, 0x7A, 0x65, 0x74, 0x61, 0x27, 0x20, 0x5728, 0x7B2C, 0x20,
          0x31, 0x20, 0x884C, 0x88AB, 0x8C03, 0x7528, 0xFF0C, 0x4F46, 0x5728, 0x7B2C, 0x20, 0x33,
          0x20, 0x884C, 0x624D, 0x5B9A, 0x4E49, 0xFF08, 0x7F3A, 0x5C11, 0x64, 0x65, 0x63, 0x6C,
          0x61, 0x72, 0x65, 0xFF09, 0xA, 0xA, 0x6587, 0x4EF6, 0x3A, 0x20, 0x62, 0x2E, 0x63, 0x6C,
          0x6A, 0xA]
       @ replicate 80 0x2D
       @ [0xA, 0x20, 0x20, 0x884C, 0x20, 0x20, 0x20, 0x20, 0x30, 0x3A, 0x20, 0x5206, 0x6790,
          0x6587, 0x4EF6, 0x65F6, 0x51FA, 0x9519, 0x3A, 0x20, 0x64, 0x65, 0x6E, 0x69, 0x65, 0x64,
          0xA], 1)"
    by code_simp
  have ne: "?issues \<noteq> []" by simp
  from t have "?issues \<noteq> [] \<longrightarrow> print_report ?issues =
       [0x53D1, 0x73B0, 0x20] @ digits (length ?issues)
       @ [0x20, 0x4E2A, 0x6F5C, 0x5728, 0x95EE, 0x9898, 0xFF1A, 0x0A, 0x0A]
       @ replicate 80 0x3D @ [0x0A]
       @ concat (map (\<lambda>file_path.
            [0x0A, 0x6587, 0x4EF6, 0x3A, 0x20] @ utext file_path @ [0x0A]
            @ replicate 80 0x2D @ [0x0A]
            @ concat (map (\<lambda>(line_num, message).
                 [0x20, 0x20, 0x884C, 0x20] @ digits4 line_num @ [0x3A, 0x20] @ message @ [0x0A])
               (sort (map snd (filter (\<lambda>issue. fst issue = file_path) ?issues)))))
          (sorted_list_of_set (fst ` set ?issues)))"
    by (elim conjE)
  with ne have "print_report ?issues =
       [0x53D1, 0x73B0, 0x20] @ digits (length ?issues)
       @ [0x20, 0x4E2A, 0x6F5C, 0x5728, 0x95EE, 0x9898, 0xFF1A, 0x0A, 0x0A]
       @ replicate 80 0x3D @ [0x0A]
       @ concat (map (\<lambda>file_path.
            [0x0A, 0x6587, 0x4EF6, 0x3A, 0x20] @ utext file_path @ [0x0A]
            @ replicate 80 0x2D @ [0x0A]
            @ concat (map (\<lambda>(line_num, message).
                 [0x20, 0x20, 0x884C, 0x20] @ digits4 line_num @ [0x3A, 0x20] @ message @ [0x0A])
               (sort (map snd (filter (\<lambda>issue. fst issue = file_path) ?issues)))))
          (sorted_list_of_set (fst ` set ?issues)))"
    by (rule rev_mp)
  also have "\<dots> = [0x53D1, 0x73B0, 0x20, 0x35, 0x20, 0x4E2A, 0x6F5C, 0x5728, 0x95EE, 0x9898, 0xFF1A, 0xA,
          0xA]
       @ replicate 80 0x3D
       @ [0xA, 0xA, 0x6587, 0x4EF6, 0x3A, 0x20, 0x61, 0x2E, 0x63, 0x6C, 0x6A, 0xA]
       @ replicate 80 0x2D
       @ [0xA, 0x20, 0x20, 0x884C, 0x20, 0x20, 0x20, 0x20, 0x33, 0x3A, 0x20, 0x78, 0xA, 0x20,
          0x20, 0x884C, 0x20, 0x20, 0x20, 0x31, 0x32, 0x3A, 0x20, 0x77, 0xA, 0xA, 0x6587, 0x4EF6,
          0x3A, 0x20, 0x62, 0x2E, 0x63, 0x6C, 0x6A, 0xA]
       @ replicate 80 0x2D
       @ [0xA, 0x20, 0x20, 0x884C, 0x20, 0x20, 0x20, 0x20, 0x31, 0x3A, 0x20, 0x79, 0xA, 0x20,
          0x20, 0x884C, 0x20, 0x20, 0x20, 0x20, 0x31, 0x3A, 0x20, 0x7A, 0xA, 0x20, 0x20, 0x884C,
          0x20, 0x20, 0x20, 0x20, 0x32, 0x3A, 0x20, 0x79, 0xA]"
    by code_simp
  finally have three: "print_report ?issues
     = [0x53D1, 0x73B0, 0x20, 0x35, 0x20, 0x4E2A, 0x6F5C, 0x5728, 0x95EE, 0x9898, 0xFF1A, 0xA,
          0xA]
       @ replicate 80 0x3D
       @ [0xA, 0xA, 0x6587, 0x4EF6, 0x3A, 0x20, 0x61, 0x2E, 0x63, 0x6C, 0x6A, 0xA]
       @ replicate 80 0x2D
       @ [0xA, 0x20, 0x20, 0x884C, 0x20, 0x20, 0x20, 0x20, 0x33, 0x3A, 0x20, 0x78, 0xA, 0x20,
          0x20, 0x884C, 0x20, 0x20, 0x20, 0x31, 0x32, 0x3A, 0x20, 0x77, 0xA, 0xA, 0x6587, 0x4EF6,
          0x3A, 0x20, 0x62, 0x2E, 0x63, 0x6C, 0x6A, 0xA]
       @ replicate 80 0x2D
       @ [0xA, 0x20, 0x20, 0x884C, 0x20, 0x20, 0x20, 0x20, 0x31, 0x3A, 0x20, 0x79, 0xA, 0x20,
          0x20, 0x884C, 0x20, 0x20, 0x20, 0x20, 0x31, 0x3A, 0x20, 0x7A, 0xA, 0x20, 0x20, 0x884C,
          0x20, 0x20, 0x20, 0x20, 0x32, 0x3A, 0x20, 0x79, 0xA]" .
  from one two three show ?thesis
    by (intro conjI)
qed

end
